theory Spec2Isabelle
  imports Complex_Main
begin

section \<open>Numbers and time\<close>

text \<open>
  \<^verbatim>\<open>Date.now()\<close> returns whole milliseconds, and the two configured intervals are whole
  numbers, so times and waits are \<^typ>\<open>int\<close>. Prices and levels are JavaScript numbers; the
  client code only compares and copies them, which on finite values agrees with the order of
  \<^typ>\<open>real\<close>. \<^verbatim>\<open>NaN\<close> is outside the model.
\<close>

section \<open>throttle.ts: the throttled wrapper\<close>

text \<open>
  The closure returned by \<^verbatim>\<open>throttle(func, wait)\<close> owns two variables, \<^verbatim>\<open>lastTime\<close> and
  \<^verbatim>\<open>timeoutId\<close>. A pending timer is recorded with the moment it becomes due and the arguments
  its callback has captured; \<^verbatim>\<open>null\<close> is \<^const>\<open>None\<close>.
\<close>

record 'a throttle_state =
  lastTime :: int
  timeoutId :: "(int \<times> 'a) option"

definition throttle_init :: "'a throttle_state" where
  "throttle_init = \<lparr>lastTime = 0, timeoutId = None\<rparr>"

text \<open>
  One call of the wrapper at \<^verbatim>\<open>Date.now() = now\<close>. The second component is the synchronous
  invocation of \<^verbatim>\<open>func\<close>, if any.
\<close>

definition throttle_call ::
  "int \<Rightarrow> int \<Rightarrow> 'a \<Rightarrow> 'a throttle_state \<Rightarrow> 'a throttle_state \<times> 'a option" where
  "throttle_call wait now args s =
     (let remaining = wait - (now - lastTime s) in
      if remaining \<le> 0 \<or> remaining > wait then
        (s\<lparr>timeoutId := None, lastTime := now\<rparr>, Some args)
      else if timeoutId s = None then
        (s\<lparr>timeoutId := Some (now + remaining, args)\<rparr>, None)
      else (s, None))"

text \<open>
  The timer callback, run by the event loop at \<^verbatim>\<open>Date.now() = now\<close>. A cleared timer never
  runs, so without a pending timer nothing happens.
\<close>

definition throttle_fire :: "int \<Rightarrow> 'a throttle_state \<Rightarrow> 'a throttle_state \<times> 'a option" where
  "throttle_fire now s =
     (case timeoutId s of
        None \<Rightarrow> (s, None)
      | Some (due, args) \<Rightarrow> (s\<lparr>lastTime := now, timeoutId := None\<rparr>, Some args))"

text \<open>
  What happens to one wrapper over time: it is called, or its timer runs. \<open>run\<close> lists the
  invocations of the wrapped function with the time of each.
\<close>

datatype 'a event = Call int 'a | Fire int

fun time_of :: "'a event \<Rightarrow> int" where
  "time_of (Call t a) = t"
| "time_of (Fire t) = t"

fun step :: "int \<Rightarrow> 'a event \<Rightarrow> 'a throttle_state \<Rightarrow> 'a throttle_state \<times> 'a option" where
  "step wait (Call t a) s = throttle_call wait t a s"
| "step wait (Fire t) s = throttle_fire t s"

fun run :: "int \<Rightarrow> 'a event list \<Rightarrow> 'a throttle_state \<Rightarrow> (int \<times> 'a) list" where
  "run wait [] s = []"
| "run wait (e # es) s =
     (case step wait e s of
        (s', None) \<Rightarrow> run wait es s'
      | (s', Some v) \<Rightarrow> (time_of e, v) # run wait es s')"

text \<open>The executions, each with its time, that fall into the window of length \<open>wait\<close> from \<open>t\<close>.\<close>

definition in_window :: "int \<Rightarrow> int \<Rightarrow> (int \<times> 'a) list \<Rightarrow> (int \<times> 'a) list" where
  "in_window t wait ds = filter (\<lambda>d. t \<le> fst d \<and> fst d < t + wait) ds"

text \<open>The state of the wrapper after a history, and the time of its last execution.\<close>

fun final :: "int \<Rightarrow> 'a event list \<Rightarrow> 'a throttle_state \<Rightarrow> 'a throttle_state" where
  "final wait [] s = s"
| "final wait (e # es) s = final wait es (fst (step wait e s))"

definition last_execution :: "int \<Rightarrow> 'a event list \<Rightarrow> int" where
  "last_execution wait evs =
     (case run wait evs throttle_init of [] \<Rightarrow> 0 | d # ds \<Rightarrow> fst (last (d # ds)))"

text \<open>A pending timer is always due one interval after the last execution.\<close>

definition timer_inv :: "int \<Rightarrow> 'a throttle_state \<Rightarrow> bool" where
  "timer_inv wait s \<longleftrightarrow>
     (case timeoutId s of None \<Rightarrow> True | Some (due, args) \<Rightarrow> due = lastTime s + wait)"

section \<open>domain/models.ts\<close>

text \<open>
  A field name that two interfaces share keeps its name in the first record and is prefixed
  in the later ones: \<^verbatim>\<open>Signal.time\<close> is \<open>sig_time\<close>, and \<^verbatim>\<open>rsi\<close>, \<^verbatim>\<open>macd_hist\<close>,
  \<^verbatim>\<open>atr\<close> and \<^verbatim>\<open>price\<close> of \<^verbatim>\<open>Indicators\<close> carry the prefix \<open>ind\<close>. An optional field
  is an \<open>option\<close>.
\<close>

datatype timestamp = UTCTimestamp real | TimeString string

record ChartDataPoint =
  time :: timestamp
  "open" :: real
  high :: real
  low :: real
  close :: real

record Signal =
  symbol :: string
  type :: string
  indicator :: string
  reason :: string
  strength :: string
  price :: real
  stopLoss :: real
  takeProfit :: real
  sig_time :: string
  expiration :: "string option"
  atr :: "real option"
  rsi :: "real option"
  macd_hist :: "real option"

record Indicators =
  ind_rsi :: real
  macd :: real
  macd_signal :: real
  ind_macd_hist :: real
  adx :: "real option"
  ema_fast :: real
  ema_slow :: real
  trend :: "string option"
  ind_atr :: real
  ind_price :: real
  change :: real
  changePercent :: real

section \<open>useMarketData: the state of the hook and its four callbacks\<close>

record hook_state =
  isConnected :: bool
  chartData :: "ChartDataPoint list"
  currentPrice :: real
  signals :: "Signal list"
  indicators :: "Indicators option"
  lastCandleRef :: "ChartDataPoint option"
  currentCandle :: "ChartDataPoint option"

text \<open>The initial values given to \<^verbatim>\<open>useState\<close> and \<^verbatim>\<open>useRef\<close>.\<close>

definition hook_init :: hook_state where
  "hook_init = \<lparr>isConnected = False, chartData = [], currentPrice = 0, signals = [],
                 indicators = None, lastCandleRef = None, currentCandle = None\<rparr>"

text \<open>The callback given to \<^verbatim>\<open>onPriceUpdate\<close>.\<close>

definition priceUpdateHandler :: "real \<Rightarrow> hook_state \<Rightarrow> hook_state" where
  "priceUpdateHandler p st =
     (let st1 = st\<lparr>currentPrice := p\<rparr> in
      case lastCandleRef st1 of
        None \<Rightarrow> st1
      | Some c \<Rightarrow>
          (let updated = c\<lparr>close := p\<rparr>;
               updated = (if p > high updated then updated\<lparr>high := p\<rparr> else updated);
               updated = (if p < low updated then updated\<lparr>low := p\<rparr> else updated)
           in st1\<lparr>lastCandleRef := Some updated, currentCandle := Some updated\<rparr>))"

text \<open>The callback given to \<^verbatim>\<open>onChartData\<close>.\<close>

definition chartDataHandler :: "ChartDataPoint list \<Rightarrow> hook_state \<Rightarrow> hook_state" where
  "chartDataHandler data st =
     (let st1 = st\<lparr>chartData := data\<rparr> in
      if length data > 0 then
        (let lastc = data ! (length data - 1)
         in st1\<lparr>lastCandleRef := Some lastc, currentCandle := Some lastc\<rparr>)
      else st1)"

text \<open>
  The callback given to \<^verbatim>\<open>onNewAlert\<close>: \<^verbatim>\<open>[signal, ...prev].slice(0, 50)\<close>. Playing the
  sound does not touch the state.
\<close>

definition newAlertHandler :: "Signal \<Rightarrow> hook_state \<Rightarrow> hook_state" where
  "newAlertHandler signal st = st\<lparr>signals := take 50 (signal # signals st)\<rparr>"

text \<open>The callback given to \<^verbatim>\<open>onIndicators\<close>.\<close>

definition indicatorsHandler :: "Indicators \<Rightarrow> hook_state \<Rightarrow> hook_state" where
  "indicatorsHandler data st = st\<lparr>indicators := Some data\<rparr>"

section \<open>Risk calculator\<close>

datatype side = BUY | SELL

record risk_levels =
  level_stopLoss :: real
  level_takeProfit :: real

text \<open>
  Modelled from the spec: the risk calculator \<^verbatim>\<open>compute(type, price, atr, slMultiplier,
  tpMultiplier)\<close> belongs to the Python backend, of which only the README is at hand. The
  frontend receives the levels ready-made in each signal. For BUY the stop-loss is
  \<^verbatim>\<open>price - atr*slMultiplier\<close> and the take-profit \<^verbatim>\<open>price + atr*tpMultiplier\<close>, for SELL
  mirrored; there are no levels when the ATR is unavailable or not positive. Arithmetic is
  exact here, not rounded as in double precision.
\<close>

definition compute :: "side \<Rightarrow> real \<Rightarrow> real option \<Rightarrow> real \<Rightarrow> real \<Rightarrow> risk_levels option" where
  "compute ty p a slMultiplier tpMultiplier =
     (case a of
        None \<Rightarrow> None
      | Some atrv \<Rightarrow>
          if atrv \<le> 0 then None
          else (case ty of
                  BUY \<Rightarrow> Some \<lparr>level_stopLoss = p - atrv * slMultiplier,
                               level_takeProfit = p + atrv * tpMultiplier\<rparr>
                | SELL \<Rightarrow> Some \<lparr>level_stopLoss = p + atrv * slMultiplier,
                                level_takeProfit = p - atrv * tpMultiplier\<rparr>))"

section \<open>SocketService\<close>

definition PRICE_UPDATE_THROTTLE_MS :: int where
  "PRICE_UPDATE_THROTTLE_MS = 500"

definition INDICATORS_THROTTLE_MS :: int where
  "INDICATORS_THROTTLE_MS = 1000"

text \<open>
  What travels with an event, and what a client callback is called with. The price event
  carries the object \<^verbatim>\<open>{price}\<close>; its callback receives the number inside. An event
  without data, or with \<^verbatim>\<open>null\<close>, carries \<open>Undefined\<close>.
\<close>

datatype payload =
    Undefined
  | Number real
  | PriceData real
  | ChartData "ChartDataPoint list"
  | SignalData Signal
  | IndicatorsData Indicators

text \<open>
  \<^verbatim>\<open>data.price\<close>. Reading a property of \<^verbatim>\<open>undefined\<close> throws a TypeError, which is
  \<^const>\<open>None\<close> here; a value without that property yields \<^verbatim>\<open>undefined\<close>.
\<close>

fun price_of :: "payload \<Rightarrow> payload option" where
  "price_of Undefined = None"
| "price_of (PriceData p) = Some (Number p)"
| "price_of (SignalData sg) = Some (Number (price sg))"
| "price_of (IndicatorsData i) = Some (Number (ind_price i))"
| "price_of (Number x) = Some Undefined"
| "price_of (ChartData rows) = Some Undefined"

text \<open>
  The callbacks a client passes in are opaque; each is known by a number, and the service
  state keeps the list of their invocations: when, which callback, with what. A callback
  is taken to return normally.
\<close>

type_synonym cbid = nat

text \<open>
  The two functions handed to \<^verbatim>\<open>throttle\<close>: \<^verbatim>\<open>(data) => callback(data.price)\<close> and
  \<^verbatim>\<open>(data) => callback(data)\<close>. Applied to the data, each gives the call it makes of the
  client callback, or \<^const>\<open>None\<close> when it throws before making it.
\<close>

datatype func =
    PriceFunc cbid
  | IndicatorsFunc cbid

fun cb_of :: "func \<Rightarrow> cbid" where
  "cb_of (PriceFunc cb) = cb"
| "cb_of (IndicatorsFunc cb) = cb"

fun apply_func :: "func \<Rightarrow> payload \<Rightarrow> (cbid \<times> payload) option" where
  "apply_func (PriceFunc cb) d =
     (case price_of d of None \<Rightarrow> None | Some v \<Rightarrow> Some (cb, v))"
| "apply_func (IndicatorsFunc cb) d = Some (cb, d)"

record throttled =
  thr_func :: func
  thr_wait :: int
  thr_state :: "payload throttle_state"

text \<open>The closures the service registers on the socket.\<close>

datatype listener =
    RequestData string
  | CallNoArgs cbid
  | PassThrough cbid
  | Throttled nat

text \<open>
  The socket of \<^verbatim>\<open>socket.io-client\<close>, as far as the service uses it: \<^verbatim>\<open>on\<close> adds a listener
  after those already there, \<^verbatim>\<open>off\<close> with a name alone removes every listener of that name,
  \<^verbatim>\<open>emit\<close> hands a message for the server to the socket.
\<close>

record Socket =
  connected :: bool
  listeners :: "(string \<times> listener) list"
  emitted :: "(string \<times> string) list"

definition on :: "string \<Rightarrow> listener \<Rightarrow> Socket \<Rightarrow> Socket" where
  "on name l sk = sk\<lparr>listeners := listeners sk @ [(name, l)]\<rparr>"

definition off :: "string \<Rightarrow> Socket \<Rightarrow> Socket" where
  "off name sk = sk\<lparr>listeners := filter (\<lambda>nl. fst nl \<noteq> name) (listeners sk)\<rparr>"

definition emit :: "string \<Rightarrow> string \<Rightarrow> Socket \<Rightarrow> Socket" where
  "emit name symb sk = sk\<lparr>emitted := emitted sk @ [(name, symb)]\<rparr>"

definition io :: Socket where
  "io = \<lparr>connected = False, listeners = [], emitted = []\<rparr>"

record service =
  socket :: "Socket option"
  throttledCallbacks :: "string \<rightharpoonup> nat"
  throttles :: "throttled list"
  calls :: "(int \<times> cbid \<times> payload) list"

definition service_init :: service where
  "service_init = \<lparr>socket = None, throttledCallbacks = Map.empty, throttles = [], calls = []\<rparr>"

definition listeners_of :: "service \<Rightarrow> (string \<times> listener) list" where
  "listeners_of sv = (case socket sv of None \<Rightarrow> [] | Some sk \<Rightarrow> listeners sk)"

definition emitted_of :: "service \<Rightarrow> (string \<times> string) list" where
  "emitted_of sv = (case socket sv of None \<Rightarrow> [] | Some sk \<Rightarrow> emitted sk)"

definition requestData :: "string \<Rightarrow> service \<Rightarrow> service" where
  "requestData symb sv =
     (case socket sv of
        None \<Rightarrow> sv
      | Some sk \<Rightarrow> sv\<lparr>socket := Some (emit ''request_data'' symb sk)\<rparr>)"

definition connect :: "string \<Rightarrow> service \<Rightarrow> service" where
  "connect symb sv =
     (case socket sv of
        None \<Rightarrow> sv\<lparr>socket := Some (on ''connect'' (RequestData symb) io)\<rparr>
      | Some sk \<Rightarrow> if connected sk then requestData symb sv else sv)"

definition call_client :: "int \<Rightarrow> cbid \<Rightarrow> payload \<Rightarrow> service \<Rightarrow> service" where
  "call_client now cb d sv = sv\<lparr>calls := calls sv @ [(now, cb, d)]\<rparr>"

definition register :: "string \<Rightarrow> listener \<Rightarrow> service \<Rightarrow> service" where
  "register name l sv =
     (case socket sv of
        None \<Rightarrow> sv
      | Some sk \<Rightarrow> sv\<lparr>socket := Some (on name l sk)\<rparr>)"

definition onConnect :: "int \<Rightarrow> cbid \<Rightarrow> service \<Rightarrow> service" where
  "onConnect now cb sv =
     (let sv1 = (case socket sv of
                   None \<Rightarrow> sv
                 | Some sk \<Rightarrow> if connected sk then call_client now cb Undefined sv else sv)
      in register ''connect'' (CallNoArgs cb) sv1)"

definition onDisconnect :: "cbid \<Rightarrow> service \<Rightarrow> service" where
  "onDisconnect cb sv = register ''disconnect'' (CallNoArgs cb) sv"

definition onPriceUpdate :: "cbid \<Rightarrow> service \<Rightarrow> service" where
  "onPriceUpdate cb sv =
     (let i = length (throttles sv);
          throttledCallback = \<lparr>thr_func = PriceFunc cb, thr_wait = PRICE_UPDATE_THROTTLE_MS,
                                thr_state = throttle_init\<rparr>;
          sv1 = sv\<lparr>throttles := throttles sv @ [throttledCallback],
                   throttledCallbacks := (throttledCallbacks sv)(''price_update'' \<mapsto> i)\<rparr>
      in register ''price_update'' (Throttled i) sv1)"

definition onChartData :: "cbid \<Rightarrow> service \<Rightarrow> service" where
  "onChartData cb sv = register ''chart_data'' (PassThrough cb) sv"

definition onNewAlert :: "cbid \<Rightarrow> service \<Rightarrow> service" where
  "onNewAlert cb sv = register ''new_alert'' (PassThrough cb) sv"

definition onIndicators :: "cbid \<Rightarrow> service \<Rightarrow> service" where
  "onIndicators cb sv =
     (let i = length (throttles sv);
          throttledCallback = \<lparr>thr_func = IndicatorsFunc cb, thr_wait = INDICATORS_THROTTLE_MS,
                                thr_state = throttle_init\<rparr>;
          sv1 = sv\<lparr>throttles := throttles sv @ [throttledCallback],
                   throttledCallbacks := (throttledCallbacks sv)(''indicators'' \<mapsto> i)\<rparr>
      in register ''indicators'' (Throttled i) sv1)"

definition removeListeners :: "service \<Rightarrow> service" where
  "removeListeners sv =
     (let sv1 = (case socket sv of
                   None \<Rightarrow> sv
                 | Some sk \<Rightarrow>
                     sv\<lparr>socket := Some (off ''indicators'' (off ''new_alert'' (off ''chart_data''
                          (off ''price_update'' (off ''disconnect'' (off ''connect'' sk))))))\<rparr>)
      in sv1\<lparr>throttledCallbacks := Map.empty\<rparr>)"

subsection \<open>What the event loop does to the service\<close>

text \<open>
  A listener returns, or an exception leaves it. The only exception in this code is the
  TypeError of \<^verbatim>\<open>data.price\<close>.
\<close>

datatype completion = Returns | Throws

text \<open>The wrapped function of a throttled closure runs: the client callback is called.\<close>

definition deliver :: "int \<Rightarrow> func \<Rightarrow> payload \<Rightarrow> service \<Rightarrow> service \<times> completion" where
  "deliver now f d sv =
     (case apply_func f d of
        None \<Rightarrow> (sv, Throws)
      | Some (cb, v) \<Rightarrow> (call_client now cb v sv, Returns))"

text \<open>
  The \<open>i\<close>-th throttled closure has taken a step of its own (\<open>r\<close>): its variables are
  written, then the wrapped function runs if the step says so.
\<close>

definition finish ::
  "int \<Rightarrow> nat \<Rightarrow> payload throttle_state \<times> payload option \<Rightarrow> service \<Rightarrow> service \<times> completion"
  where
  "finish now i r sv =
     (let th = throttles sv ! i;
          sv1 = sv\<lparr>throttles := (throttles sv)[i := th\<lparr>thr_state := fst r\<rparr>]\<rparr>
      in case snd r of None \<Rightarrow> (sv1, Returns) | Some d \<Rightarrow> deliver now (thr_func th) d sv1)"

text \<open>One listener is called with the data of an event.\<close>

fun invoke :: "int \<Rightarrow> payload \<Rightarrow> listener \<Rightarrow> service \<Rightarrow> service \<times> completion" where
  "invoke now d (RequestData symb) sv = (requestData symb sv, Returns)"
| "invoke now d (CallNoArgs cb) sv = (call_client now cb Undefined sv, Returns)"
| "invoke now d (PassThrough cb) sv = (call_client now cb d sv, Returns)"
| "invoke now d (Throttled i) sv =
     (if i < length (throttles sv) then
        (let th = throttles sv ! i
         in finish now i (throttle_call (thr_wait th) now d (thr_state th)) sv)
      else (sv, Returns))"

text \<open>
  The emitter calls the listeners of an event one after the other, in the order of their
  registration, without catching: an exception from one of them ends the round.
\<close>

fun dispatch :: "int \<Rightarrow> payload \<Rightarrow> listener list \<Rightarrow> service \<Rightarrow> service" where
  "dispatch now d [] sv = sv"
| "dispatch now d (l # ls) sv =
     (case invoke now d l sv of
        (sv', Returns) \<Rightarrow> dispatch now d ls sv'
      | (sv', Throws) \<Rightarrow> sv')"

text \<open>An event of the given name arrives on the socket.\<close>

definition receive :: "int \<Rightarrow> string \<Rightarrow> payload \<Rightarrow> service \<Rightarrow> service" where
  "receive now name d sv =
     dispatch now d (map snd (filter (\<lambda>nl. fst nl = name) (listeners_of sv))) sv"

text \<open>
  The transport comes up, and goes down. The socket sets its flag and tells the listeners
  of \<^verbatim>\<open>connect\<close> and \<^verbatim>\<open>disconnect\<close>.
\<close>

definition socket_connected :: "int \<Rightarrow> service \<Rightarrow> service" where
  "socket_connected now sv =
     (case socket sv of
        None \<Rightarrow> sv
      | Some sk \<Rightarrow>
          if connected sk then sv
          else receive now ''connect'' Undefined (sv\<lparr>socket := Some (sk\<lparr>connected := True\<rparr>)\<rparr>))"

definition socket_disconnected :: "int \<Rightarrow> service \<Rightarrow> service" where
  "socket_disconnected now sv =
     (case socket sv of
        None \<Rightarrow> sv
      | Some sk \<Rightarrow>
          if connected sk then
            receive now ''disconnect'' Undefined (sv\<lparr>socket := Some (sk\<lparr>connected := False\<rparr>)\<rparr>)
          else sv)"

text \<open>
  \<^verbatim>\<open>SocketService.disconnect\<close>. Closing a connected socket by hand makes it go down at once,
  listeners told; then the service forgets the socket, and with it every listener.
\<close>

definition disconnect :: "int \<Rightarrow> service \<Rightarrow> service" where
  "disconnect now sv =
     (let sv1 = (case socket sv of
                   None \<Rightarrow> sv
                 | Some sk \<Rightarrow> (socket_disconnected now sv)\<lparr>socket := None\<rparr>)
      in sv1\<lparr>throttledCallbacks := Map.empty\<rparr>)"

text \<open>
  The timer of the \<open>i\<close>-th throttled closure runs. An exception in a timer callback goes to
  the event loop and is lost there.
\<close>

definition timer_fire :: "int \<Rightarrow> nat \<Rightarrow> service \<Rightarrow> service" where
  "timer_fire now i sv =
     (if i < length (throttles sv) then
        fst (finish now i (throttle_fire now (thr_state (throttles sv ! i))) sv)
      else sv)"

datatype env_event =
    Server int string payload
  | Timer int nat
  | TransportUp int
  | TransportDown int



fun env_step :: "env_event \<Rightarrow> service \<Rightarrow> service" where
  "env_step (Server t name d) sv = receive t name d sv"
| "env_step (Timer t i) sv = timer_fire t i sv"
| "env_step (TransportUp t) sv = socket_connected t sv"
| "env_step (TransportDown t) sv = socket_disconnected t sv"

text \<open>The client callbacks registered for an event, in order of registration.\<close>

fun passed_to :: "string \<Rightarrow> (string \<times> listener) list \<Rightarrow> cbid list" where
  "passed_to name [] = []"
| "passed_to name ((n, PassThrough cb) # ls) =
     (if n = name then cb # passed_to name ls else passed_to name ls)"
| "passed_to name (nl # ls) = passed_to name ls"

text \<open>
  Each kind of closure is registered under its own event names only; every state the
  service can reach has this form.
\<close>

fun listener_ok :: "string \<times> listener \<Rightarrow> bool" where
  "listener_ok (name, RequestData symb) = (name = ''connect'')"
| "listener_ok (name, CallNoArgs cb) = (name = ''connect'' \<or> name = ''disconnect'')"
| "listener_ok (name, PassThrough cb) = (name = ''chart_data'' \<or> name = ''new_alert'')"
| "listener_ok (name, Throttled i) = (name = ''price_update'' \<or> name = ''indicators'')"

definition well_formed :: "service \<Rightarrow> bool" where
  "well_formed sv \<longleftrightarrow> list_all listener_ok (listeners_of sv)"

text \<open>Everything that can happen to the service: a call of a method, or an event.\<close>

datatype action =
    Connect string
  | Disconnect int
  | RequestDataOf string
  | OnConnect int cbid
  | OnDisconnect cbid
  | OnPriceUpdate cbid
  | OnChartData cbid
  | OnNewAlert cbid
  | OnIndicators cbid
  | RemoveListeners
  | Env env_event

fun exec :: "action \<Rightarrow> service \<Rightarrow> service" where
  "exec (Connect symb) sv = connect symb sv"
| "exec (Disconnect now) sv = disconnect now sv"
| "exec (RequestDataOf symb) sv = requestData symb sv"
| "exec (OnConnect now cb) sv = onConnect now cb sv"
| "exec (OnDisconnect cb) sv = onDisconnect cb sv"
| "exec (OnPriceUpdate cb) sv = onPriceUpdate cb sv"
| "exec (OnChartData cb) sv = onChartData cb sv"
| "exec (OnNewAlert cb) sv = onNewAlert cb sv"
| "exec (OnIndicators cb) sv = onIndicators cb sv"
| "exec RemoveListeners sv = removeListeners sv"
| "exec (Env e) sv = env_step e sv"

text \<open>The two operations that take listeners away.\<close>

fun removes :: "action \<Rightarrow> bool" where
  "removes RemoveListeners = True"
| "removes (Disconnect now) = True"
| "removes a = False"


subsection \<open>One registration on a rate-limited channel\<close>

text \<open>
  Each registration passes a function of its own. A callback is new to a state when no
  listener and no throttled closure of the state calls it and it has not been called.
\<close>

fun calls_cb :: "listener \<Rightarrow> cbid \<Rightarrow> bool" where
  "calls_cb (CallNoArgs c) cb = (c = cb)"
| "calls_cb (PassThrough c) cb = (c = cb)"
| "calls_cb l cb = False"

definition unused :: "cbid \<Rightarrow> service \<Rightarrow> bool" where
  "unused cb sv \<longleftrightarrow>
     list_all (\<lambda>nl. \<not> calls_cb (snd nl) cb) (listeners_of sv)
     \<and> list_all (\<lambda>th. cb_of (thr_func th) \<noteq> cb) (throttles sv)
     \<and> list_all (\<lambda>c. fst (snd c) \<noteq> cb) (calls sv)"

fun registers :: "action \<Rightarrow> cbid \<Rightarrow> bool" where
  "registers (OnConnect now c) cb = (c = cb)"
| "registers (OnDisconnect c) cb = (c = cb)"
| "registers (OnPriceUpdate c) cb = (c = cb)"
| "registers (OnChartData c) cb = (c = cb)"
| "registers (OnNewAlert c) cb = (c = cb)"
| "registers (OnIndicators c) cb = (c = cb)"
| "registers a cb = False"

text \<open>The reading of \<^verbatim>\<open>Date.now()\<close> at an action that has one.\<close>

fun action_time :: "action \<Rightarrow> int option" where
  "action_time (Disconnect now) = Some now"
| "action_time (OnConnect now c) = Some now"
| "action_time (Env (Server t name d)) = Some t"
| "action_time (Env (Timer t i)) = Some t"
| "action_time (Env (TransportUp t)) = Some t"
| "action_time (Env (TransportDown t)) = Some t"
| "action_time a = None"

text \<open>The timer of the \<open>i\<close>-th closure does not run before it is due.\<close>

fun timer_due :: "nat \<Rightarrow> service \<Rightarrow> action \<Rightarrow> bool" where
  "timer_due i sv (Env (Timer t j)) =
     (if j = i \<and> i < length (throttles sv) then
        (case timeoutId (thr_state (throttles sv ! i)) of
           None \<Rightarrow> True
         | Some (due, args) \<Rightarrow> due \<le> t)
      else True)"
| "timer_due i sv a = True"

text \<open>
  The runs of the service in which the clock does not go backwards from \<open>clock\<close> on, the
  timer of the \<open>i\<close>-th closure is never early, and \<open>cb\<close> is not registered a second time.
\<close>

fun schedule_ok :: "nat \<Rightarrow> cbid \<Rightarrow> int \<Rightarrow> service \<Rightarrow> action list \<Rightarrow> bool" where
  "schedule_ok i cb clock sv [] = True"
| "schedule_ok i cb clock sv (a # as) =
     (\<not> registers a cb \<and> timer_due i sv a \<and>
      (case action_time a of
         None \<Rightarrow> schedule_ok i cb clock (exec a sv) as
       | Some t \<Rightarrow> clock \<le> t \<and> schedule_ok i cb t (exec a sv) as))"

text \<open>The calls of one client callback.\<close>

definition delivered_to :: "cbid \<Rightarrow> service \<Rightarrow> (int \<times> cbid \<times> payload) list" where
  "delivered_to cb sv = filter (\<lambda>c. fst (snd c) = cb) (calls sv)"

text \<open>
  What holds of the \<open>i\<close>-th closure and its callback \<open>cb\<close> throughout such a run: nothing
  else calls \<open>cb\<close>, a pending timer is due one interval after the last execution, and the
  calls of \<open>cb\<close> lie at least one interval apart, none after the last execution.
\<close>

definition channel_inv :: "nat \<Rightarrow> cbid \<Rightarrow> int \<Rightarrow> int \<Rightarrow> service \<Rightarrow> bool" where
  "channel_inv i cb w clock sv \<longleftrightarrow>
     i < length (throttles sv)
     \<and> cb_of (thr_func (throttles sv ! i)) = cb
     \<and> thr_wait (throttles sv ! i) = w
     \<and> (\<forall>j < length (throttles sv). j \<noteq> i \<longrightarrow> cb_of (thr_func (throttles sv ! j)) \<noteq> cb)
     \<and> (\<forall>nl \<in> set (listeners_of sv). \<not> calls_cb (snd nl) cb)
     \<and> timer_inv w (thr_state (throttles sv ! i))
     \<and> lastTime (thr_state (throttles sv ! i)) \<le> clock
     \<and> sorted_wrt (\<lambda>d d'. fst d + w \<le> fst d') (delivered_to cb sv)
     \<and> (\<forall>d \<in> set (delivered_to cb sv). fst d \<le> lastTime (thr_state (throttles sv ! i)))"

subsection \<open>The effect of useMarketData\<close>

text \<open>
  The hook registers six callbacks, here numbered in the order of registration. Its
  cleanup is \<^verbatim>\<open>removeListeners\<close>.
\<close>

definition useMarketData_effect :: "int \<Rightarrow> string \<Rightarrow> service \<Rightarrow> service" where
  "useMarketData_effect now symb sv =
     onIndicators 5 (onNewAlert 4 (onChartData 3 (onPriceUpdate 2
       (onDisconnect 1 (onConnect now 0 (connect symb sv))))))"

subsection \<open>Values for the examples\<close>

definition example_signal :: Signal where
  "example_signal =
     \<lparr>symbol = ''EURUSD=X'', type = ''BUY'', indicator = ''EMA'', reason = ''EMA cross'',
      strength = ''FUERTE'', price = 1.105, stopLoss = 1.1032, takeProfit = 1.1074,
      sig_time = ''2024-01-01 10:00:00'', expiration = None, atr = Some 0.0012,
      rsi = None, macd_hist = None\<rparr>"

definition example_candle :: ChartDataPoint where
  "example_candle =
     \<lparr>time = UTCTimestamp 1700000000, open = 1.104, high = 1.106, low = 1.103, close = 1.105\<rparr>"

text \<open>The hook is mounted at 900 ms and the transport comes up at 1000 ms.\<close>

definition example_service :: service where
  "example_service = socket_connected 1000 (useMarketData_effect 900 ''EURUSD=X'' service_init)"

text \<open>
  A price is delivered at 2000 ms and the next one, at 2100 ms, is held back by the
  throttle.
\<close>

definition example_held_back :: service where
  "example_held_back =
     receive 2100 ''price_update'' (PriceData 1.1051)
       (receive 2000 ''price_update'' (PriceData 1.105) example_service)"

text \<open>
  The symbol changes at 2200 ms: the cleanup of the hook runs and then its effect, for the
  new symbol. The first price of the new symbol comes at 2300 ms.
\<close>

definition example_switched :: service where
  "example_switched =
     receive 2300 ''price_update'' (PriceData 151.2)
       (useMarketData_effect 2200 ''USDJPY=X'' (removeListeners example_held_back))"

text \<open>
  The hook is mounted at 900 ms, the symbol changes at 950 ms, and only then, at 1000 ms,
  the transport comes up.
\<close>

definition example_early_switch :: service where
  "example_early_switch =
     socket_connected 1000
       (useMarketData_effect 950 ''GBPUSD=X''
         (removeListeners (useMarketData_effect 900 ''EURUSD=X'' service_init)))"

section \<open>The throttled wrapper: properties\<close>

lemma step_cases:
  "step wait e s = (s', out) \<Longrightarrow>
     (out = None \<and> lastTime s' = lastTime s) \<or> (out \<noteq> None \<and> lastTime s' = time_of e)"
  by (cases e)
    (auto simp: throttle_call_def throttle_fire_def Let_def split: if_splits option.splits)

text \<open>\<^verbatim>\<open>lastTime\<close> is the time of the last execution, and 0 before the first one.\<close>

lemma final_lastTime:
  "lastTime (final wait evs s) =
     (case run wait evs s of [] \<Rightarrow> lastTime s | d # ds \<Rightarrow> fst (last (d # ds)))"
proof (induction evs arbitrary: s)
  case Nil
  then show ?case by simp
next
  case (Cons e es)
  obtain s' out where st: "step wait e s = (s', out)" by (cases "step wait e s")
  from step_cases[OF st] show ?case
    using Cons.IH[of s'] st by (auto split: list.splits option.splits)
qed

lemma last_execution_Nil: "last_execution wait [] = 0"
  by (simp add: last_execution_def)

text \<open>
  C10. A call that arrives when at least \<open>wait\<close> milliseconds have passed since the last
  execution runs the wrapped function at once with its own arguments, and leaves no timer
  pending. Before the first execution \<^verbatim>\<open>lastTime\<close> is 0, so for the very first call the
  condition reads \<open>wait \<le> now\<close>, which every value of \<^verbatim>\<open>Date.now()\<close> meets.
\<close>

theorem throttle_leading_call:
  assumes "wait \<le> now - last_execution wait evs"
  shows "throttle_call wait now args (final wait evs throttle_init)
           = (\<lparr>lastTime = now, timeoutId = None\<rparr>, Some args)"
proof -
  have "lastTime (final wait evs (throttle_init :: 'a throttle_state)) = last_execution wait evs"
    by (simp add: final_lastTime last_execution_def throttle_init_def split: list.splits)
  with assms show ?thesis
    by (simp add: throttle_call_def Let_def)
qed

theorem throttle_leading_call_witness:
  "throttle_call 500 1500 (1.1051 :: real) (final 500 [Call 1000 1.105] throttle_init)
     = (\<lparr>lastTime = 1500, timeoutId = None\<rparr>, Some 1.1051)"
proof -
  have h: "(500 :: int) \<le> 1500 - last_execution 500 [Call 1000 (1.105 :: real)]"
    by (simp add: last_execution_def throttle_init_def throttle_call_def Let_def)
  from throttle_leading_call[OF h] show ?thesis .
qed

text \<open>
  Where the executions of a list lie at least one interval apart, no window of that
  length holds two of them.
\<close>

lemma spaced_window:
  "sorted_wrt (\<lambda>d d'. fst d + wait \<le> fst d') ds \<Longrightarrow> length (in_window t wait ds) \<le> 1"
proof (induction ds)
  case Nil
  then show ?case by (simp add: in_window_def)
next
  case (Cons d ds)
  show ?case
  proof (cases "t \<le> fst d \<and> fst d < t + wait")
    case True
    have "\<forall>d' \<in> set ds. \<not> (fst d' < t + wait)" using Cons.prems True by auto
    then have "in_window t wait ds = []" by (auto simp: in_window_def filter_empty_conv)
    then show ?thesis using True by (simp add: in_window_def)
  next
    case False
    then show ?thesis using Cons by (auto simp: in_window_def)
  qed
qed







section \<open>The callbacks of the hook: properties\<close>

text \<open>
  C9. A price update that finds a current candle leaves a candle with
  \<open>low \<le> close \<le> high\<close> whose close is the new price; the high has not gone down, the low
  has not gone up, time and open are as before.
\<close>

theorem price_update_candle:
  assumes "lastCandleRef st = Some c"
  shows "\<exists>c'. lastCandleRef (priceUpdateHandler p st) = Some c'
           \<and> currentCandle (priceUpdateHandler p st) = Some c'
           \<and> low c' \<le> close c' \<and> close c' \<le> high c' \<and> close c' = p
           \<and> high c \<le> high c' \<and> low c' \<le> low c
           \<and> time c' = time c \<and> open c' = open c"
  using assms by (simp add: priceUpdateHandler_def Let_def)

theorem price_update_candle_witness:
  "\<exists>c'. lastCandleRef (priceUpdateHandler 1.107 (chartDataHandler [example_candle] hook_init))
           = Some c'
       \<and> currentCandle (priceUpdateHandler 1.107 (chartDataHandler [example_candle] hook_init))
           = Some c'
       \<and> low c' \<le> close c' \<and> close c' \<le> high c' \<and> close c' = 1.107
       \<and> high example_candle \<le> high c' \<and> low c' \<le> low example_candle
       \<and> time c' = time example_candle \<and> open c' = open example_candle"
proof -
  have h: "lastCandleRef (chartDataHandler [example_candle] hook_init) = Some example_candle"
    by (simp add: chartDataHandler_def hook_init_def Let_def)
  from price_update_candle[OF h, of "1.107"] show ?thesis .
qed

text \<open>
  C6. An arriving alert goes to the front of the buffer, the entries already there follow
  in their order, and the buffer holds 50 entries at most: on a full buffer the last entry,
  which is the oldest, is dropped.
\<close>

theorem new_alert_buffer:
  "signals (newAlertHandler sg st) = sg # take 49 (signals st)
   \<and> length (signals (newAlertHandler sg st)) = min 50 (Suc (length (signals st)))
   \<and> (length (signals st) < 50 \<longrightarrow> signals (newAlertHandler sg st) = sg # signals st)
   \<and> (length (signals st) = 50 \<longrightarrow>
        signals (newAlertHandler sg st) = sg # butlast (signals st))"
  by (auto simp: newAlertHandler_def take_Cons' butlast_conv_take)

theorem new_alert_buffer_witness:
  "signals (newAlertHandler example_signal hook_init) = [example_signal]
   \<and> signals (newAlertHandler example_signal
        (hook_init\<lparr>signals := replicate 49 example_signal @ [example_signal\<lparr>type := ''SELL''\<rparr>]\<rparr>))
      = example_signal # replicate 49 example_signal"
proof -
  let ?full = "hook_init\<lparr>signals := replicate 49 example_signal @ [example_signal\<lparr>type := ''SELL''\<rparr>]\<rparr>"
  have h1: "length (signals hook_init) < 50" by (simp add: hook_init_def)
  have h2: "length (signals ?full) = 50" by simp
  from new_alert_buffer[of example_signal hook_init] h1
  have "signals (newAlertHandler example_signal hook_init) = example_signal # signals hook_init"
    by blast
  moreover from new_alert_buffer[of example_signal ?full] h2
  have "signals (newAlertHandler example_signal ?full) = example_signal # butlast (signals ?full)"
    by blast
  ultimately show ?thesis by (simp add: hook_init_def)
qed

section \<open>The risk calculator: properties\<close>

text \<open>
  C5. The levels of an emitted signal lie on either side of its price as its type says:
  for BUY the stop-loss is \<open>price - atr*slMultiplier\<close>, the take-profit
  \<open>price + atr*tpMultiplier\<close> and \<open>stopLoss < price < takeProfit\<close>; for SELL the two are
  mirrored and \<open>takeProfit < price < stopLoss\<close>. The multipliers are positive, and levels
  exist only for a positive ATR.
\<close>

theorem risk_levels_straddle:
  assumes "compute ty p a sl tp = Some lv" and "0 < sl" and "0 < tp"
  shows "\<exists>atrv. a = Some atrv \<and> 0 < atrv
     \<and> (ty = BUY \<longrightarrow> level_stopLoss lv = p - atrv * sl \<and> level_takeProfit lv = p + atrv * tp
            \<and> level_stopLoss lv < p \<and> p < level_takeProfit lv)
     \<and> (ty = SELL \<longrightarrow> level_stopLoss lv = p + atrv * sl \<and> level_takeProfit lv = p - atrv * tp
            \<and> level_takeProfit lv < p \<and> p < level_stopLoss lv)"
  using assms by (auto simp: compute_def split: option.splits if_splits side.splits)

theorem risk_levels_straddle_witness:
  "compute BUY 1.105 (Some 0.0012) 1.5 2
     = Some \<lparr>level_stopLoss = 1.1032, level_takeProfit = 1.1074\<rparr>
   \<and> level_stopLoss \<lparr>level_stopLoss = 1.1032, level_takeProfit = 1.1074\<rparr> < 1.105
   \<and> 1.105 < level_takeProfit \<lparr>level_stopLoss = 1.1032, level_takeProfit = 1.1074\<rparr>
   \<and> compute SELL 1.105 (Some 0.0012) 1.5 2
     = Some \<lparr>level_stopLoss = 1.1068, level_takeProfit = 1.1026\<rparr>
   \<and> level_takeProfit \<lparr>level_stopLoss = 1.1068, level_takeProfit = 1.1026\<rparr> < 1.105
   \<and> 1.105 < level_stopLoss \<lparr>level_stopLoss = 1.1068, level_takeProfit = 1.1026\<rparr>"
proof -
  have b: "compute BUY 1.105 (Some 0.0012) 1.5 2
             = Some \<lparr>level_stopLoss = 1.1032, level_takeProfit = 1.1074\<rparr>"
    by (simp add: compute_def)
  have s: "compute SELL 1.105 (Some 0.0012) 1.5 2
             = Some \<lparr>level_stopLoss = 1.1068, level_takeProfit = 1.1026\<rparr>"
    by (simp add: compute_def)
  have m1: "(0 :: real) < 1.5" and m2: "(0 :: real) < 2" by simp_all
  from risk_levels_straddle[OF b m1 m2] risk_levels_straddle[OF s m1 m2] b s
  show ?thesis by blast
qed

section \<open>SocketService: properties\<close>

subsection \<open>The listeners stay as they are while events are handled\<close>

lemma listeners_of_call_client [simp]: "listeners_of (call_client now cb d sv) = listeners_of sv"
  by (simp add: call_client_def listeners_of_def)

lemma listeners_of_requestData [simp]: "listeners_of (requestData symb sv) = listeners_of sv"
  by (simp add: requestData_def listeners_of_def emit_def split: option.splits)

lemma listeners_of_finish [simp]: "listeners_of (fst (finish now i r sv)) = listeners_of sv"
  by (simp add: finish_def deliver_def call_client_def listeners_of_def Let_def
      split: option.splits prod.splits)

lemma listeners_of_invoke [simp]: "listeners_of (fst (invoke now d l sv)) = listeners_of sv"
  by (cases l) (simp_all add: Let_def)

lemma listeners_of_dispatch [simp]: "listeners_of (dispatch now d ls sv) = listeners_of sv"
proof (induction ls arbitrary: sv)
  case Nil
  then show ?case by simp
next
  case (Cons l ls)
  obtain sv' c where inv: "invoke now d l sv = (sv', c)" by (cases "invoke now d l sv")
  have "listeners_of sv' = listeners_of sv"
    using listeners_of_invoke[of now d l sv] inv by simp
  then show ?case using Cons inv by (cases c) simp_all
qed

lemma listeners_of_receive [simp]: "listeners_of (receive now name d sv) = listeners_of sv"
  by (simp add: receive_def)

lemma listeners_of_timer_fire [simp]: "listeners_of (timer_fire now i sv) = listeners_of sv"
  by (simp add: timer_fire_def)

lemma listeners_of_flag [simp]:
  "socket sv = Some sk \<Longrightarrow>
     listeners_of (sv\<lparr>socket := Some (sk\<lparr>connected := b\<rparr>)\<rparr>) = listeners_of sv"
  by (simp add: listeners_of_def)

lemma listeners_of_socket_connected [simp]:
  "listeners_of (socket_connected now sv) = listeners_of sv"
  by (simp add: socket_connected_def split: option.splits)

lemma listeners_of_socket_disconnected [simp]:
  "listeners_of (socket_disconnected now sv) = listeners_of sv"
  by (simp add: socket_disconnected_def split: option.splits)

lemma listeners_of_env_step [simp]: "listeners_of (env_step e sv) = listeners_of sv"
  by (cases e) simp_all

lemma listeners_of_disconnect [simp]: "listeners_of (disconnect now sv) = []"
  by (simp add: disconnect_def listeners_of_def Let_def split: option.splits)

lemma listeners_of_register:
  "listeners_of (register name l sv) =
     (if socket sv = None then [] else listeners_of sv @ [(name, l)])"
  by (simp add: register_def listeners_of_def on_def split: option.splits)

subsection \<open>Every operation keeps the listeners under their own event names\<close>

lemma well_formed_init: "well_formed service_init"
  by (simp add: well_formed_def listeners_of_def service_init_def)

lemma well_formed_register:
  "well_formed sv \<Longrightarrow> listener_ok (name, l) \<Longrightarrow> well_formed (register name l sv)"
  by (simp add: well_formed_def listeners_of_register)

lemma well_formed_requestData: "well_formed sv \<Longrightarrow> well_formed (requestData symb sv)"
  by (simp add: well_formed_def)

lemma well_formed_connect: "well_formed sv \<Longrightarrow> well_formed (connect symb sv)"
  by (auto simp: well_formed_def connect_def listeners_of_def on_def io_def requestData_def
      emit_def split: option.splits)

lemma well_formed_disconnect: "well_formed (disconnect now sv)"
  by (simp add: well_formed_def)

lemma well_formed_onConnect: "well_formed sv \<Longrightarrow> well_formed (onConnect now cb sv)"
  unfolding onConnect_def Let_def
  by (rule well_formed_register) (auto simp: well_formed_def split: option.splits)

lemma well_formed_onDisconnect: "well_formed sv \<Longrightarrow> well_formed (onDisconnect cb sv)"
  unfolding onDisconnect_def by (rule well_formed_register) simp_all

lemma well_formed_onPriceUpdate: "well_formed sv \<Longrightarrow> well_formed (onPriceUpdate cb sv)"
  unfolding onPriceUpdate_def Let_def
  by (rule well_formed_register) (simp_all add: well_formed_def listeners_of_def)

lemma well_formed_onChartData: "well_formed sv \<Longrightarrow> well_formed (onChartData cb sv)"
  unfolding onChartData_def by (rule well_formed_register) simp_all

lemma well_formed_onNewAlert: "well_formed sv \<Longrightarrow> well_formed (onNewAlert cb sv)"
  unfolding onNewAlert_def by (rule well_formed_register) simp_all

lemma well_formed_onIndicators: "well_formed sv \<Longrightarrow> well_formed (onIndicators cb sv)"
  unfolding onIndicators_def Let_def
  by (rule well_formed_register) (simp_all add: well_formed_def listeners_of_def)

lemma well_formed_removeListeners: "well_formed sv \<Longrightarrow> well_formed (removeListeners sv)"
  by (auto simp: well_formed_def removeListeners_def listeners_of_def off_def list_all_iff
      Let_def split: option.splits)

lemma well_formed_receive: "well_formed sv \<Longrightarrow> well_formed (receive now name d sv)"
  by (simp add: well_formed_def)

lemma well_formed_timer_fire: "well_formed sv \<Longrightarrow> well_formed (timer_fire now i sv)"
  by (simp add: well_formed_def)

lemma well_formed_socket_connected: "well_formed sv \<Longrightarrow> well_formed (socket_connected now sv)"
  by (simp add: well_formed_def)

lemma well_formed_effect: "well_formed sv \<Longrightarrow> well_formed (useMarketData_effect now symb sv)"
  unfolding useMarketData_effect_def
  by (intro well_formed_onIndicators well_formed_onNewAlert well_formed_onChartData
      well_formed_onPriceUpdate well_formed_onDisconnect well_formed_onConnect
      well_formed_connect)

lemma well_formed_example: "well_formed example_service"
  unfolding example_service_def
  by (intro well_formed_socket_connected well_formed_effect well_formed_init)

lemma well_formed_held_back: "well_formed example_held_back"
  unfolding example_held_back_def
  by (intro well_formed_receive well_formed_example)

lemma well_formed_env_step: "well_formed sv \<Longrightarrow> well_formed (env_step e sv)"
  by (simp add: well_formed_def)

lemma well_formed_exec: "well_formed sv \<Longrightarrow> well_formed (exec a sv)"
  by (cases a)
    (simp_all add: well_formed_connect well_formed_disconnect well_formed_requestData
      well_formed_onConnect well_formed_onDisconnect well_formed_onPriceUpdate
      well_formed_onChartData well_formed_onNewAlert well_formed_onIndicators
      well_formed_removeListeners well_formed_env_step)

lemma well_formed_fold_exec: "well_formed sv \<Longrightarrow> well_formed (fold exec as sv)"
  by (induction as arbitrary: sv) (simp_all add: well_formed_exec)

lemma well_formed_reachable: "well_formed (fold exec as service_init)"
  by (rule well_formed_fold_exec) (rule well_formed_init)

subsection \<open>Events that are passed straight to the client\<close>

lemma dispatch_pass_through:
  assumes "list_all listener_ok ls" and "name = ''new_alert'' \<or> name = ''chart_data''"
  shows "dispatch now d (map snd (filter (\<lambda>nl. fst nl = name) ls)) sv
           = sv\<lparr>calls := calls sv @ map (\<lambda>cb. (now, cb, d)) (passed_to name ls)\<rparr>"
  using assms(1)
proof (induction ls arbitrary: sv)
  case Nil
  then show ?case by simp
next
  case (Cons nl ls)
  obtain n l where nl: "nl = (n, l)" by (cases nl)
  show ?case
  proof (cases "n = name")
    case False
    then show ?thesis using Cons nl by (cases l) simp_all
  next
    case True
    then obtain cb where l: "l = PassThrough cb"
      using Cons.prems nl assms(2) by (cases l) auto
    show ?thesis using Cons True nl l by (simp add: call_client_def)
  qed
qed

lemma passed_to_append: "passed_to name (ls @ ls') = passed_to name ls @ passed_to name ls'"
  by (induction name ls rule: passed_to.induct) simp_all

lemma example_listeners:
  "listeners_of example_service =
     [(''connect'', RequestData ''EURUSD=X''), (''connect'', CallNoArgs 0),
      (''disconnect'', CallNoArgs 1), (''price_update'', Throttled 0),
      (''chart_data'', PassThrough 3), (''new_alert'', PassThrough 4),
      (''indicators'', Throttled 1)]"
  by code_simp

text \<open>
  C4. A \<^verbatim>\<open>new_alert\<close> event calls every registered alert callback in the same step, with
  the signal as it came, once per event: the throttles are neither asked nor changed, so
  whatever window the price or the indicators channel is in, the alert is not held back.
  A callback given to \<^verbatim>\<open>onNewAlert\<close> joins the registered ones.
\<close>

theorem new_alert_immediate:
  assumes "well_formed sv"
  shows "receive now ''new_alert'' d sv
           = sv\<lparr>calls := calls sv
                  @ map (\<lambda>cb. (now, cb, d)) (passed_to ''new_alert'' (listeners_of sv))\<rparr>
       \<and> (socket sv \<noteq> None \<longrightarrow>
            passed_to ''new_alert'' (listeners_of (onNewAlert cb sv))
              = passed_to ''new_alert'' (listeners_of sv) @ [cb])"
  using assms
  by (simp add: receive_def well_formed_def dispatch_pass_through onNewAlert_def
      listeners_of_register passed_to_append)

theorem new_alert_immediate_witness:
  "receive 2200 ''new_alert'' (SignalData example_signal) example_held_back
     = example_held_back\<lparr>calls := calls example_held_back
                                     @ [(2200, 4, SignalData example_signal)]\<rparr>
   \<and> passed_to ''new_alert'' (listeners_of (onNewAlert 9 example_held_back)) = [4, 9]"
proof -
  have h: "socket example_held_back \<noteq> None"
    by code_simp
  have l: "passed_to ''new_alert'' (listeners_of example_held_back) = [4]"
    by (simp add: example_held_back_def example_listeners)
  from new_alert_immediate[OF well_formed_held_back, of 2200 "SignalData example_signal" 9] h l
  show ?thesis by simp
qed

subsection \<open>Subscribing to a symbol\<close>

text \<open>
  The part of C7 that holds. Every \<^verbatim>\<open>chart_data\<close> event calls every registered chart
  callback in the same step with the full data: the handler has no throttle, and the
  throttles of the other two channels are neither asked nor changed. On a connected socket
  \<^verbatim>\<open>connect\<close> hands the request for the symbol to the socket at once.
\<close>

lemma chart_data_immediate:
  assumes "well_formed sv"
  shows "receive now ''chart_data'' d sv
           = sv\<lparr>calls := calls sv
                  @ map (\<lambda>cb. (now, cb, d)) (passed_to ''chart_data'' (listeners_of sv))\<rparr>
       \<and> (socket sv \<noteq> None \<longrightarrow>
            passed_to ''chart_data'' (listeners_of (onChartData cb sv))
              = passed_to ''chart_data'' (listeners_of sv) @ [cb])
       \<and> (\<forall>sk. socket sv = Some sk \<and> connected sk \<longrightarrow>
            connect symb sv = sv\<lparr>socket := Some (emit ''request_data'' symb sk)\<rparr>)"
  using assms
  by (simp add: receive_def well_formed_def dispatch_pass_through onChartData_def
      listeners_of_register passed_to_append connect_def requestData_def)

lemma chart_data_example:
  "receive 2200 ''chart_data'' (ChartData [example_candle]) example_held_back
     = example_held_back\<lparr>calls := calls example_held_back
                                     @ [(2200, 3, ChartData [example_candle])]\<rparr>
   \<and> emitted_of (connect ''GBPUSD=X'' example_held_back)
     = [(''request_data'', ''EURUSD=X''), (''request_data'', ''GBPUSD=X'')]"
proof -
  have l: "passed_to ''chart_data'' (listeners_of example_held_back) = [3]"
    by (simp add: example_held_back_def example_listeners)
  have e: "emitted_of (connect ''GBPUSD=X'' example_held_back)
             = [(''request_data'', ''EURUSD=X''), (''request_data'', ''GBPUSD=X'')]"
    by code_simp
  from chart_data_immediate[OF well_formed_held_back, of 2200 "ChartData [example_candle]"] l e
  show ?thesis by simp
qed

text \<open>
  C7 fails where the symbol changes before the transport is up. The cleanup of the hook
  removes, with all the others, the listener that \<^verbatim>\<open>connect\<close> had installed to request the
  data once the socket connects, and \<^verbatim>\<open>connect\<close> for the new symbol finds a socket that is
  not connected and does nothing. When the transport comes up the connection callback of
  the hook is called, and no request is handed to the socket, for either symbol, nor is
  one when the transport drops and comes back: the server is never asked and has no
  snapshot to send. Mounted once, the same hook does request its data.
\<close>

theorem resubscribe_before_connect:
  "emitted_of example_early_switch = []
   \<and> calls example_early_switch = [(1000, 0, Undefined)]
   \<and> passed_to ''chart_data'' (listeners_of example_early_switch) = [3]
   \<and> emitted_of (fold env_step [TransportDown 5000, TransportUp 6000] example_early_switch)
       = []
   \<and> emitted_of example_service = [(''request_data'', ''EURUSD=X'')]"
  by code_simp

subsection \<open>After removeListeners\<close>

lemma listener_ok_names:
  "listener_ok nl \<Longrightarrow>
     fst nl = ''connect'' \<or> fst nl = ''disconnect'' \<or> fst nl = ''price_update''
     \<or> fst nl = ''chart_data'' \<or> fst nl = ''new_alert'' \<or> fst nl = ''indicators''"
  by (cases nl, cases "snd nl") auto

lemma listeners_of_removeListeners:
  assumes "well_formed sv"
  shows "listeners_of (removeListeners sv) = []"
proof (cases "socket sv")
  case None
  then show ?thesis by (simp add: removeListeners_def listeners_of_def)
next
  case (Some sk)
  have "\<forall>nl \<in> set (listeners sk). listener_ok nl"
    using assms Some by (simp add: well_formed_def listeners_of_def list_all_iff)
  then have "\<forall>nl \<in> set (listeners sk). fst nl = ''connect'' \<or> fst nl = ''disconnect''
      \<or> fst nl = ''price_update'' \<or> fst nl = ''chart_data'' \<or> fst nl = ''new_alert''
      \<or> fst nl = ''indicators''"
    using listener_ok_names by blast
  then show ?thesis using Some
    by (auto simp: removeListeners_def listeners_of_def off_def filter_empty_conv)
qed


lemma calls_removeListeners [simp]: "calls (removeListeners sv) = calls sv"
  by (simp add: removeListeners_def Let_def split: option.splits)

lemma throttles_removeListeners [simp]: "throttles (removeListeners sv) = throttles sv"
  by (simp add: removeListeners_def Let_def split: option.splits)

text \<open>What a step of a throttled closure does to the service.\<close>

lemma finish_throttles:
  "throttles (fst (finish now j r sv))
     = (throttles sv)[j := (throttles sv ! j)\<lparr>thr_state := fst r\<rparr>]"
  by (simp add: finish_def deliver_def call_client_def Let_def split: option.splits prod.splits)

lemma finish_calls:
  "calls (fst (finish now j r sv))
     = (case snd r of
          None \<Rightarrow> calls sv
        | Some a \<Rightarrow>
            (case apply_func (thr_func (throttles sv ! j)) a of
               None \<Rightarrow> calls sv
             | Some cv \<Rightarrow> calls sv @ [(now, cv)]))"
  by (simp add: finish_def deliver_def call_client_def Let_def split: option.splits prod.splits)













subsection \<open>Registration and removal\<close>

lemma listeners_of_throttles_update [simp]:
  "listeners_of (sv\<lparr>throttles := ths, throttledCallbacks := m\<rparr>) = listeners_of sv"
  by (simp add: listeners_of_def)

lemma listeners_of_onConnect:
  "listeners_of (onConnect now cb sv)
     = (if socket sv = None then [] else listeners_of sv @ [(''connect'', CallNoArgs cb)])"
  by (simp add: onConnect_def register_def on_def listeners_of_def call_client_def
      split: option.splits)

lemma listeners_of_onDisconnect:
  "listeners_of (onDisconnect cb sv)
     = (if socket sv = None then [] else listeners_of sv @ [(''disconnect'', CallNoArgs cb)])"
  by (simp add: onDisconnect_def listeners_of_register)

lemma listeners_of_onPriceUpdate:
  "listeners_of (onPriceUpdate cb sv)
     = (if socket sv = None then []
        else listeners_of sv @ [(''price_update'', Throttled (length (throttles sv)))])"
  by (simp add: onPriceUpdate_def register_def on_def listeners_of_def Let_def
      split: option.splits)

lemma listeners_of_onChartData:
  "listeners_of (onChartData cb sv)
     = (if socket sv = None then [] else listeners_of sv @ [(''chart_data'', PassThrough cb)])"
  by (simp add: onChartData_def listeners_of_register)

lemma listeners_of_onNewAlert:
  "listeners_of (onNewAlert cb sv)
     = (if socket sv = None then [] else listeners_of sv @ [(''new_alert'', PassThrough cb)])"
  by (simp add: onNewAlert_def listeners_of_register)

lemma listeners_of_onIndicators:
  "listeners_of (onIndicators cb sv)
     = (if socket sv = None then []
        else listeners_of sv @ [(''indicators'', Throttled (length (throttles sv)))])"
  by (simp add: onIndicators_def register_def on_def listeners_of_def Let_def
      split: option.splits)

lemma listeners_of_connect:
  "listeners_of (connect symb sv)
     = (if socket sv = None then [(''connect'', RequestData symb)] else listeners_of sv)"
  by (simp add: connect_def listeners_of_def on_def io_def requestData_def emit_def
      split: option.splits)

lemma listeners_of_no_socket: "socket sv = None \<Longrightarrow> listeners_of sv = []"
  by (simp add: listeners_of_def)

text \<open>
  No operation removes one listener and leaves another: the two that remove leave none,
  and every other one leaves all that were there.
\<close>

lemma all_or_nothing:
  assumes "well_formed sv"
  shows "if removes a then listeners_of (exec a sv) = []
         else \<exists>ext. listeners_of (exec a sv) = listeners_of sv @ ext"
proof (cases a)
  case (Connect symb)
  then show ?thesis by (simp add: listeners_of_connect listeners_of_no_socket)
next
  case RemoveListeners
  then show ?thesis using assms by (simp add: listeners_of_removeListeners)
qed (auto simp: listeners_of_onConnect listeners_of_onDisconnect listeners_of_onPriceUpdate
    listeners_of_onChartData listeners_of_onNewAlert listeners_of_onIndicators
    listeners_of_no_socket)

text \<open>
  C8, as stated, fails. The hook has registered a chart callback and an alert callback by
  two calls. The one way to remove the chart listener is \<^verbatim>\<open>removeListeners\<close>, and it takes
  the alert listener away as well: an alert that arrives afterwards reaches no callback.
\<close>

theorem removal_counterexample:
  "(''chart_data'', PassThrough 3) \<in> set (listeners_of example_service)
   \<and> (''new_alert'', PassThrough 4) \<in> set (listeners_of example_service)
   \<and> listeners_of (removeListeners example_service) = []
   \<and> calls (receive 3000 ''new_alert'' (SignalData example_signal)
        (removeListeners example_service)) = calls example_service"
  by code_simp

text \<open>
  C8, amended. No registration yields a cancellation of its own. Each of the six methods
  gives back nothing but the service with its listener added after those already there, or
  unchanged in its listeners when there is no socket. No operation of the service and no
  event removes one listener and leaves another. Two operations remove, and they leave no
  listener at all: \<^verbatim>\<open>removeListeners\<close>, which removes the listeners of all six events
  together, and \<^verbatim>\<open>disconnect\<close>, which discards the socket with all of them. After every
  other operation and after every event the listeners of before are all in place, perhaps
  with more behind them.
\<close>

theorem registration_and_removal:
  assumes "well_formed sv"
  shows "(if removes a then listeners_of (exec a sv) = []
          else \<exists>ext. listeners_of (exec a sv) = listeners_of sv @ ext)
       \<and> listeners_of (onConnect now cb sv)
           = (if socket sv = None then [] else listeners_of sv @ [(''connect'', CallNoArgs cb)])
       \<and> listeners_of (onDisconnect cb sv)
           = (if socket sv = None then []
              else listeners_of sv @ [(''disconnect'', CallNoArgs cb)])
       \<and> listeners_of (onPriceUpdate cb sv)
           = (if socket sv = None then []
              else listeners_of sv @ [(''price_update'', Throttled (length (throttles sv)))])
       \<and> listeners_of (onChartData cb sv)
           = (if socket sv = None then []
              else listeners_of sv @ [(''chart_data'', PassThrough cb)])
       \<and> listeners_of (onNewAlert cb sv)
           = (if socket sv = None then [] else listeners_of sv @ [(''new_alert'', PassThrough cb)])
       \<and> listeners_of (onIndicators cb sv)
           = (if socket sv = None then []
              else listeners_of sv @ [(''indicators'', Throttled (length (throttles sv)))])
       \<and> listeners_of (removeListeners sv) = []
       \<and> listeners_of (disconnect now sv) = []"
  using all_or_nothing[OF assms, of a] listeners_of_removeListeners[OF assms]
  by (simp add: listeners_of_onConnect listeners_of_onDisconnect listeners_of_onPriceUpdate
      listeners_of_onChartData listeners_of_onNewAlert listeners_of_onIndicators)

theorem registration_and_removal_witness:
  "listeners_of (onNewAlert 9 example_service)
     = listeners_of example_service @ [(''new_alert'', PassThrough 9)]
   \<and> listeners_of (onNewAlert 9 service_init) = []
   \<and> listeners_of (exec RemoveListeners (onNewAlert 9 example_service)) = []
   \<and> listeners_of (removeListeners (onNewAlert 9 example_service)) = []
   \<and> listeners_of (disconnect 3000 (onNewAlert 9 example_service)) = []"
proof -
  have h: "socket example_service \<noteq> None"
    by code_simp
  have n: "socket service_init = None"
    by (simp add: service_init_def)
  have w: "well_formed (onNewAlert 9 example_service)"
    using well_formed_example by (rule well_formed_onNewAlert)
  from registration_and_removal[OF well_formed_example, of "OnNewAlert 9" 3000 9]
    registration_and_removal[OF well_formed_init, of "OnNewAlert 9" 3000 9]
    registration_and_removal[OF w, of RemoveListeners 3000 9]
    h n
  show ?thesis by simp
qed

subsection \<open>One registration on a rate-limited channel\<close>

lemma apply_func_cb: "apply_func f d = Some (c, v) \<Longrightarrow> c = cb_of f"
  by (cases f) (auto split: option.splits)

lemma throttle_call_facts:
  assumes "timer_inv w st" and "lastTime st \<le> now"
  shows "timer_inv w (fst (throttle_call w now d st))
       \<and> (snd (throttle_call w now d st) = None \<longrightarrow>
            lastTime (fst (throttle_call w now d st)) = lastTime st)
       \<and> (snd (throttle_call w now d st) \<noteq> None \<longrightarrow>
            lastTime (fst (throttle_call w now d st)) = now \<and> lastTime st + w \<le> now)"
  using assms by (auto simp: throttle_call_def timer_inv_def Let_def split: option.splits)

lemma throttle_fire_facts:
  assumes "timer_inv w st"
    and "case timeoutId st of None \<Rightarrow> True | Some (due, args) \<Rightarrow> due \<le> now"
  shows "timer_inv w (fst (throttle_fire now st))
       \<and> (snd (throttle_fire now st) = None \<longrightarrow>
            lastTime (fst (throttle_fire now st)) = lastTime st)
       \<and> (snd (throttle_fire now st) \<noteq> None \<longrightarrow>
            lastTime (fst (throttle_fire now st)) = now \<and> lastTime st + w \<le> now)"
  using assms by (auto simp: throttle_fire_def timer_inv_def split: option.splits)

lemma channel_inv_mono:
  "channel_inv i cb w clock sv \<Longrightarrow> clock \<le> clock' \<Longrightarrow> channel_inv i cb w clock' sv"
  by (auto simp: channel_inv_def)

lemma untouched_call_client [simp]:
  "throttles (call_client now c v sv) = throttles sv"
  "calls (call_client now c v sv) = calls sv @ [(now, c, v)]"
  by (simp_all add: call_client_def)

lemma untouched_requestData [simp]:
  "throttles (requestData symb sv) = throttles sv"
  "calls (requestData symb sv) = calls sv"
  by (simp_all add: requestData_def split: option.splits)

lemma untouched_register [simp]:
  "throttles (register name l sv) = throttles sv"
  "calls (register name l sv) = calls sv"
  by (simp_all add: register_def split: option.splits)

lemma untouched_connect [simp]:
  "throttles (connect symb sv) = throttles sv"
  "calls (connect symb sv) = calls sv"
  by (simp_all add: connect_def split: option.splits)

text \<open>A change of the socket alone, with no listener added.\<close>

lemma channel_inv_socket:
  assumes "channel_inv i cb w clock sv"
    and "throttles sv' = throttles sv" and "calls sv' = calls sv"
    and "set (listeners_of sv') \<subseteq> set (listeners_of sv)"
  shows "channel_inv i cb w clock sv'"
  using assms by (auto simp: channel_inv_def delivered_to_def)

lemma channel_inv_call_other:
  assumes "channel_inv i cb w clock sv" and "c \<noteq> cb"
  shows "channel_inv i cb w clock (call_client now c v sv)"
  using assms by (simp add: channel_inv_def delivered_to_def)

lemma channel_inv_register:
  assumes "channel_inv i cb w clock sv" and "\<not> calls_cb l cb"
  shows "channel_inv i cb w clock (register name l sv)"
  using assms by (simp add: channel_inv_def delivered_to_def listeners_of_register)

text \<open>A throttled closure takes a step.\<close>

lemma channel_inv_finish:
  assumes inv: "channel_inv i cb w clock sv" and now: "clock \<le> now"
    and j: "j < length (throttles sv)"
    and r: "j = i \<Longrightarrow>
              timer_inv w (fst r)
              \<and> (snd r = None \<longrightarrow> lastTime (fst r) = lastTime (thr_state (throttles sv ! i)))
              \<and> (snd r \<noteq> None \<longrightarrow>
                   lastTime (fst r) = now \<and> lastTime (thr_state (throttles sv ! i)) + w \<le> now)"
  shows "channel_inv i cb w now (fst (finish now j r sv))"
proof -
  let ?sv' = "fst (finish now j r sv)"
  let ?st = "thr_state (throttles sv ! i)"
  from inv have i: "i < length (throttles sv)"
    and f: "cb_of (thr_func (throttles sv ! i)) = cb"
    and wt: "thr_wait (throttles sv ! i) = w"
    and oth: "\<forall>k < length (throttles sv). k \<noteq> i \<longrightarrow> cb_of (thr_func (throttles sv ! k)) \<noteq> cb"
    and lst: "\<forall>nl \<in> set (listeners_of sv). \<not> calls_cb (snd nl) cb"
    and tinv: "timer_inv w ?st"
    and clk: "lastTime ?st \<le> clock"
    and srt: "sorted_wrt (\<lambda>d d'. fst d + w \<le> fst d') (delivered_to cb sv)"
    and bnd: "\<forall>d \<in> set (delivered_to cb sv). fst d \<le> lastTime ?st"
    by (simp_all add: channel_inv_def)
  have ths: "throttles ?sv' = (throttles sv)[j := (throttles sv ! j)\<lparr>thr_state := fst r\<rparr>]"
    by (rule finish_throttles)
  have len: "length (throttles ?sv') = length (throttles sv)"
    using ths by simp
  have funcs: "thr_func (throttles ?sv' ! k) = thr_func (throttles sv ! k)
      \<and> thr_wait (throttles ?sv' ! k) = thr_wait (throttles sv ! k)"
    if "k < length (throttles sv)" for k
    using that ths by (cases "k = j") simp_all
  have lst': "\<forall>nl \<in> set (listeners_of ?sv'). \<not> calls_cb (snd nl) cb"
    using lst by simp
  show ?thesis
  proof (cases "j = i")
    case False
    have st': "thr_state (throttles ?sv' ! i) = ?st"
      using False ths by simp
    have "cb_of (thr_func (throttles sv ! j)) \<noteq> cb"
      using oth j False by simp
    then have "delivered_to cb ?sv' = delivered_to cb sv"
      by (auto simp: delivered_to_def finish_calls dest: apply_func_cb split: option.splits)
    then show ?thesis
      using i f wt oth lst' tinv clk srt bnd now len funcs st'
      by (simp add: channel_inv_def)
  next
    case True
    note r' = r[OF True]
    have st': "thr_state (throttles ?sv' ! i) = fst r"
      using True i ths by simp
    have le: "lastTime ?st \<le> now"
      using clk now by simp
    have le': "lastTime (fst r) \<le> now \<and> lastTime ?st \<le> lastTime (fst r)"
      using r' le by (cases "snd r") auto
    have del: "delivered_to cb ?sv' = delivered_to cb sv
        \<or> (\<exists>v. snd r \<noteq> None \<and> delivered_to cb ?sv' = delivered_to cb sv @ [(now, cb, v)])"
      using True f
      by (auto simp: delivered_to_def finish_calls dest: apply_func_cb split: option.splits)
    have srt': "sorted_wrt (\<lambda>d d'. fst d + w \<le> fst d') (delivered_to cb ?sv')"
      using del
    proof
      assume "delivered_to cb ?sv' = delivered_to cb sv"
      then show ?thesis using srt by simp
    next
      assume "\<exists>v. snd r \<noteq> None \<and> delivered_to cb ?sv' = delivered_to cb sv @ [(now, cb, v)]"
      then obtain v where some: "snd r \<noteq> None"
        and app: "delivered_to cb ?sv' = delivered_to cb sv @ [(now, cb, v)]" by blast
      have "lastTime ?st + w \<le> now" using r' some by simp
      then have "\<forall>d \<in> set (delivered_to cb sv). fst d + w \<le> now"
        using bnd by fastforce
      then show ?thesis using srt app by (simp add: sorted_wrt_append)
    qed
    have bnd': "\<forall>d \<in> set (delivered_to cb ?sv'). fst d \<le> lastTime (fst r)"
      using del
    proof
      assume "delivered_to cb ?sv' = delivered_to cb sv"
      then show ?thesis using bnd le' by fastforce
    next
      assume "\<exists>v. snd r \<noteq> None \<and> delivered_to cb ?sv' = delivered_to cb sv @ [(now, cb, v)]"
      then obtain v where some: "snd r \<noteq> None"
        and app: "delivered_to cb ?sv' = delivered_to cb sv @ [(now, cb, v)]" by blast
      have "lastTime (fst r) = now" using r' some by simp
      then show ?thesis using app bnd le by fastforce
    qed
    show ?thesis
      using i f wt oth lst' r' le' srt' bnd' len funcs st'
      by (simp add: channel_inv_def)
  qed
qed

lemma channel_inv_invoke:
  assumes "channel_inv i cb w clock sv" and "clock \<le> now" and "\<not> calls_cb l cb"
  shows "channel_inv i cb w now (fst (invoke now d l sv))"
proof (cases l)
  case (RequestData symb)
  have "channel_inv i cb w clock (requestData symb sv)"
    using assms(1) by (rule channel_inv_socket) simp_all
  then show ?thesis using RequestData assms(2) by (simp add: channel_inv_mono)
next
  case (CallNoArgs c)
  then show ?thesis using assms by (simp add: channel_inv_call_other channel_inv_mono)
next
  case (PassThrough c)
  then show ?thesis using assms by (simp add: channel_inv_call_other channel_inv_mono)
next
  case (Throttled j)
  show ?thesis
  proof (cases "j < length (throttles sv)")
    case False
    then show ?thesis using Throttled assms by (simp add: channel_inv_mono)
  next
    case True
    let ?r = "throttle_call (thr_wait (throttles sv ! j)) now d (thr_state (throttles sv ! j))"
    have "channel_inv i cb w now (fst (finish now j ?r sv))"
      using assms(1,2) True
    proof (rule channel_inv_finish)
      assume "j = i"
      moreover have "timer_inv w (thr_state (throttles sv ! i))"
        and "lastTime (thr_state (throttles sv ! i)) \<le> now"
        and "thr_wait (throttles sv ! i) = w"
        using assms(1,2) by (simp_all add: channel_inv_def)
      ultimately show "timer_inv w (fst ?r)
          \<and> (snd ?r = None \<longrightarrow> lastTime (fst ?r) = lastTime (thr_state (throttles sv ! i)))
          \<and> (snd ?r \<noteq> None \<longrightarrow>
               lastTime (fst ?r) = now \<and> lastTime (thr_state (throttles sv ! i)) + w \<le> now)"
        using throttle_call_facts[of w "thr_state (throttles sv ! i)" now d] by simp
    qed
    then show ?thesis using Throttled True by (simp add: Let_def)
  qed
qed

lemma channel_inv_dispatch:
  assumes "channel_inv i cb w clock sv" and "clock \<le> now"
    and "\<forall>l \<in> set ls. \<not> calls_cb l cb"
  shows "channel_inv i cb w now (dispatch now d ls sv)"
  using assms
proof (induction ls arbitrary: sv clock)
  case Nil
  then show ?case by (simp add: channel_inv_mono)
next
  case (Cons l ls)
  obtain sv' c where inv: "invoke now d l sv = (sv', c)" by (cases "invoke now d l sv")
  have step: "channel_inv i cb w now sv'"
    using channel_inv_invoke[OF Cons.prems(1,2), of l d] Cons.prems(3) inv by simp
  show ?case
  proof (cases c)
    case Returns
    have "channel_inv i cb w now (dispatch now d ls sv')"
      using step Cons.prems(3) by (intro Cons.IH[of now]) simp_all
    then show ?thesis using inv Returns by simp
  next
    case Throws
    then show ?thesis using inv step by simp
  qed
qed

lemma channel_inv_receive:
  assumes "channel_inv i cb w clock sv" and "clock \<le> now"
  shows "channel_inv i cb w now (receive now name d sv)"
proof -
  have "\<forall>nl \<in> set (listeners_of sv). \<not> calls_cb (snd nl) cb"
    using assms(1) by (simp add: channel_inv_def)
  then have "\<forall>l \<in> set (map snd (filter (\<lambda>nl. fst nl = name) (listeners_of sv))). \<not> calls_cb l cb"
    by auto
  then show ?thesis
    unfolding receive_def using assms by (intro channel_inv_dispatch[of i cb w clock])
qed

lemma channel_inv_timer_fire:
  assumes "channel_inv i cb w clock sv" and "clock \<le> now"
    and "timer_due i sv (Env (Timer now j))"
  shows "channel_inv i cb w now (timer_fire now j sv)"
proof (cases "j < length (throttles sv)")
  case False
  then show ?thesis using assms by (simp add: timer_fire_def channel_inv_mono)
next
  case True
  let ?r = "throttle_fire now (thr_state (throttles sv ! j))"
  have "channel_inv i cb w now (fst (finish now j ?r sv))"
    using assms(1,2) True
  proof (rule channel_inv_finish)
    assume ji: "j = i"
    have "timer_inv w (thr_state (throttles sv ! i))"
      using assms(1) by (simp add: channel_inv_def)
    moreover have "case timeoutId (thr_state (throttles sv ! i)) of
        None \<Rightarrow> True | Some (due, args) \<Rightarrow> due \<le> now"
      using assms(3) ji True by simp
    ultimately show "timer_inv w (fst ?r)
        \<and> (snd ?r = None \<longrightarrow> lastTime (fst ?r) = lastTime (thr_state (throttles sv ! i)))
        \<and> (snd ?r \<noteq> None \<longrightarrow>
             lastTime (fst ?r) = now \<and> lastTime (thr_state (throttles sv ! i)) + w \<le> now)"
      using throttle_fire_facts[of w "thr_state (throttles sv ! i)" now] ji by simp
  qed
  then show ?thesis using True by (simp add: timer_fire_def)
qed

lemma channel_inv_flag:
  assumes "channel_inv i cb w clock sv" and "socket sv = Some sk"
  shows "channel_inv i cb w clock (sv\<lparr>socket := Some (sk\<lparr>connected := b\<rparr>)\<rparr>)"
  using assms(1) by (rule channel_inv_socket) (simp_all add: assms(2))

lemma channel_inv_socket_connected:
  assumes "channel_inv i cb w clock sv" and "clock \<le> now"
  shows "channel_inv i cb w now (socket_connected now sv)"
proof (cases "socket sv")
  case None
  then show ?thesis using assms by (simp add: socket_connected_def channel_inv_mono)
next
  case (Some sk)
  show ?thesis
  proof (cases "connected sk")
    case True
    then show ?thesis using Some assms by (simp add: socket_connected_def channel_inv_mono)
  next
    case False
    have "channel_inv i cb w now
        (receive now ''connect'' Undefined (sv\<lparr>socket := Some (sk\<lparr>connected := True\<rparr>)\<rparr>))"
      using channel_inv_flag[OF assms(1) Some] assms(2) by (rule channel_inv_receive)
    then show ?thesis using Some False by (simp add: socket_connected_def)
  qed
qed

lemma channel_inv_socket_disconnected:
  assumes "channel_inv i cb w clock sv" and "clock \<le> now"
  shows "channel_inv i cb w now (socket_disconnected now sv)"
proof (cases "socket sv")
  case None
  then show ?thesis using assms by (simp add: socket_disconnected_def channel_inv_mono)
next
  case (Some sk)
  show ?thesis
  proof (cases "connected sk")
    case False
    then show ?thesis using Some assms by (simp add: socket_disconnected_def channel_inv_mono)
  next
    case True
    have "channel_inv i cb w now
        (receive now ''disconnect'' Undefined (sv\<lparr>socket := Some (sk\<lparr>connected := False\<rparr>)\<rparr>))"
      using channel_inv_flag[OF assms(1) Some] assms(2) by (rule channel_inv_receive)
    then show ?thesis using Some True by (simp add: socket_disconnected_def)
  qed
qed

lemma channel_inv_env_step:
  assumes "channel_inv i cb w clock sv" and "action_time (Env e) = Some now"
    and "clock \<le> now" and "timer_due i sv (Env e)"
  shows "channel_inv i cb w now (env_step e sv)"
  using assms
  by (cases e)
    (simp_all add: channel_inv_receive channel_inv_timer_fire channel_inv_socket_connected
      channel_inv_socket_disconnected)

lemma channel_inv_disconnect:
  assumes "channel_inv i cb w clock sv" and "clock \<le> now"
  shows "channel_inv i cb w now (disconnect now sv)"
proof -
  have "channel_inv i cb w now (socket_disconnected now sv)"
    using assms by (rule channel_inv_socket_disconnected)
  then have "channel_inv i cb w now
      ((socket_disconnected now sv)\<lparr>socket := None, throttledCallbacks := Map.empty\<rparr>)"
    by (rule channel_inv_socket) (simp_all add: listeners_of_def)
  moreover have "channel_inv i cb w now (sv\<lparr>throttledCallbacks := Map.empty\<rparr>)"
    using channel_inv_mono[OF assms]
    by (rule channel_inv_socket) (simp_all add: listeners_of_def)
  ultimately show ?thesis
    by (simp add: disconnect_def Let_def split: option.splits)
qed

lemma channel_inv_connect:
  assumes "channel_inv i cb w clock sv"
  shows "channel_inv i cb w clock (connect symb sv)"
  using assms by (simp add: channel_inv_def delivered_to_def listeners_of_connect)

lemma channel_inv_requestData:
  assumes "channel_inv i cb w clock sv"
  shows "channel_inv i cb w clock (requestData symb sv)"
  using assms by (rule channel_inv_socket) simp_all

lemma channel_inv_removeListeners:
  assumes "channel_inv i cb w clock sv"
  shows "channel_inv i cb w clock (removeListeners sv)"
  using assms
  by (rule channel_inv_socket)
    (auto simp: removeListeners_def listeners_of_def off_def Let_def split: option.splits)

lemma channel_inv_onConnect:
  assumes "channel_inv i cb w clock sv" and "c \<noteq> cb"
  shows "channel_inv i cb w clock (onConnect now c sv)"
  unfolding onConnect_def Let_def
  using assms
  by (intro channel_inv_register) (auto simp: channel_inv_call_other split: option.splits)

text \<open>Another throttled closure is created, for another callback.\<close>

lemma channel_inv_new_throttle:
  assumes "channel_inv i cb w clock sv" and "cb_of (thr_func th) \<noteq> cb"
  shows "channel_inv i cb w clock (sv\<lparr>throttles := throttles sv @ [th], throttledCallbacks := m\<rparr>)"
proof -
  from assms(1) have i: "i < length (throttles sv)"
    by (simp add: channel_inv_def)
  have "cb_of (thr_func ((throttles sv @ [th]) ! k)) \<noteq> cb"
    if "k < Suc (length (throttles sv))" and "k \<noteq> i" for k
    using that assms by (cases "k < length (throttles sv)") (auto simp: nth_append channel_inv_def)
  then show ?thesis
    using assms(1) i by (simp add: channel_inv_def delivered_to_def nth_append)
qed

lemma channel_inv_onPriceUpdate:
  assumes "channel_inv i cb w clock sv" and "c \<noteq> cb"
  shows "channel_inv i cb w clock (onPriceUpdate c sv)"
  unfolding onPriceUpdate_def Let_def
  using assms by (intro channel_inv_register channel_inv_new_throttle) simp_all

lemma channel_inv_onIndicators:
  assumes "channel_inv i cb w clock sv" and "c \<noteq> cb"
  shows "channel_inv i cb w clock (onIndicators c sv)"
  unfolding onIndicators_def Let_def
  using assms by (intro channel_inv_register channel_inv_new_throttle) simp_all

lemma channel_inv_exec:
  assumes "channel_inv i cb w clock sv" and "\<not> registers a cb" and "timer_due i sv a"
    and "case action_time a of None \<Rightarrow> True | Some t \<Rightarrow> clock \<le> t"
  shows "channel_inv i cb w (case action_time a of None \<Rightarrow> clock | Some t \<Rightarrow> t) (exec a sv)"
proof (cases a)
  case (Env e)
  then obtain t where t: "action_time (Env e) = Some t" by (cases e) simp_all
  then show ?thesis using Env assms channel_inv_env_step[of i cb w clock sv e t] by simp
next
  case (OnConnect now c)
  then have "channel_inv i cb w clock (onConnect now c sv)"
    using assms by (simp add: channel_inv_onConnect)
  then show ?thesis using OnConnect assms(4) by (simp add: channel_inv_mono)
qed (use assms in \<open>simp_all add: channel_inv_connect channel_inv_disconnect
    channel_inv_requestData channel_inv_onConnect channel_inv_register onDisconnect_def
    onChartData_def onNewAlert_def channel_inv_onPriceUpdate channel_inv_onIndicators
    channel_inv_removeListeners\<close>)

lemma channel_inv_run:
  assumes "channel_inv i cb w clock sv" and "schedule_ok i cb clock sv as"
  shows "\<exists>clock'. channel_inv i cb w clock' (fold exec as sv)"
  using assms
proof (induction as arbitrary: sv clock)
  case Nil
  then show ?case by auto
next
  case (Cons a as)
  let ?clock' = "case action_time a of None \<Rightarrow> clock | Some t \<Rightarrow> t"
  have ok: "\<not> registers a cb" "timer_due i sv a"
    "case action_time a of None \<Rightarrow> True | Some t \<Rightarrow> clock \<le> t"
    "schedule_ok i cb ?clock' (exec a sv) as"
    using Cons.prems(2) by (auto split: option.splits)
  have "channel_inv i cb w ?clock' (exec a sv)"
    using Cons.prems(1) ok(1,2,3) by (rule channel_inv_exec)
  from Cons.IH[OF this ok(4)] show ?case by simp
qed

text \<open>A registration of a new callback starts the run.\<close>

lemma channel_inv_start:
  assumes "unused cb sv"
    and "th = \<lparr>thr_func = f, thr_wait = w, thr_state = throttle_init\<rparr>" and "cb_of f = cb"
  shows "channel_inv (length (throttles sv)) cb w 0
           (register name (Throttled (length (throttles sv)))
              (sv\<lparr>throttles := throttles sv @ [th], throttledCallbacks := m\<rparr>))"
proof -
  let ?sv1 = "sv\<lparr>throttles := throttles sv @ [th], throttledCallbacks := m\<rparr>"
  from assms(1) have l: "\<forall>nl \<in> set (listeners_of sv). \<not> calls_cb (snd nl) cb"
    and t: "\<forall>k < length (throttles sv). cb_of (thr_func (throttles sv ! k)) \<noteq> cb"
    and c: "delivered_to cb sv = []"
    by (auto simp: unused_def list_all_iff delivered_to_def filter_empty_conv all_set_conv_all_nth)
  have "channel_inv (length (throttles sv)) cb w 0 ?sv1"
    using l t c assms(2,3)
    by (simp add: channel_inv_def nth_append timer_inv_def throttle_init_def delivered_to_def)
  then show ?thesis by (rule channel_inv_register) simp
qed


text \<open>
  C2, as stated, fails, in three ways. A timer callback that runs one millisecond before
  its due time by \<^verbatim>\<open>Date.now()\<close> makes the second execution 499 ms after the first. A
  clock that is set back between two calls makes the wrapper execute at once. And where
  the symbol changes while a price is held back, the timer of the old registration and
  the first call of the new one both reach the price callback of the hook, at 2300 ms and
  at 2500 ms.
\<close>

theorem rate_limit_counterexample:
  "length (in_window 1000 PRICE_UPDATE_THROTTLE_MS
      (run PRICE_UPDATE_THROTTLE_MS
         [Call 1000 (PriceData 1.105), Call 1001 (PriceData 1.1051), Fire 1499] throttle_init))
     = 2
   \<and> length (in_window 900 PRICE_UPDATE_THROTTLE_MS
      (run PRICE_UPDATE_THROTTLE_MS
         [Call 1000 (PriceData 1.105), Call 900 (PriceData 1.1051)] throttle_init))
     = 2
   \<and> in_window 2300 PRICE_UPDATE_THROTTLE_MS
        (delivered_to 2 (timer_fire 2500 0 example_switched))
     = [(2300, 2, Number 151.2), (2500, 2, Number 1.1051)]"
  by code_simp

text \<open>
  C2, amended. Take one registration on a rate-limited channel: \<^verbatim>\<open>onPriceUpdate\<close> or
  \<^verbatim>\<open>onIndicators\<close> is given a callback that nothing else calls, and the callback is not
  registered again. Then, in every run of the service in which \<^verbatim>\<open>Date.now()\<close> does not go
  backwards and the timer of this registration does not run before it is due, any window
  of the configured length, 500 ms for prices and 1000 ms for indicators, holds at most one
  call of that callback. The run may hold any other registrations, removals, events and
  timers.
\<close>

theorem channel_rate_limit:
  assumes "unused cb sv"
    and "(sv1 = onPriceUpdate cb sv \<and> wait = PRICE_UPDATE_THROTTLE_MS)
         \<or> (sv1 = onIndicators cb sv \<and> wait = INDICATORS_THROTTLE_MS)"
    and "schedule_ok (length (throttles sv)) cb 0 sv1 as"
  shows "length (in_window t wait (delivered_to cb (fold exec as sv1))) \<le> 1"
proof -
  have "channel_inv (length (throttles sv)) cb wait 0 sv1"
    using assms(2)
  proof
    assume "sv1 = onPriceUpdate cb sv \<and> wait = PRICE_UPDATE_THROTTLE_MS"
    then show ?thesis
      using channel_inv_start[OF assms(1), of _ "PriceFunc cb" PRICE_UPDATE_THROTTLE_MS]
      by (simp add: onPriceUpdate_def Let_def)
  next
    assume "sv1 = onIndicators cb sv \<and> wait = INDICATORS_THROTTLE_MS"
    then show ?thesis
      using channel_inv_start[OF assms(1), of _ "IndicatorsFunc cb" INDICATORS_THROTTLE_MS]
      by (simp add: onIndicators_def Let_def)
  qed
  from channel_inv_run[OF this assms(3)] obtain clock' where
    "channel_inv (length (throttles sv)) cb wait clock' (fold exec as sv1)" ..
  then have "sorted_wrt (\<lambda>d d'. fst d + wait \<le> fst d') (delivered_to cb (fold exec as sv1))"
    by (simp add: channel_inv_def)
  then show ?thesis by (rule spaced_window)
qed

theorem channel_rate_limit_witness:
  "length (in_window 2000 PRICE_UPDATE_THROTTLE_MS
     (delivered_to 2
        (fold exec
           [Env (Server 2000 ''price_update'' (PriceData 1.105)),
            Env (Server 2100 ''price_update'' (PriceData 1.1051)),
            RemoveListeners, OnPriceUpdate 7,
            Env (Server 2300 ''price_update'' (PriceData 1.1052)),
            Env (Timer 2500 0), Env (Timer 2800 1)]
           (onPriceUpdate 2 (socket_connected 1000 (connect ''EURUSD=X'' service_init))))))
     \<le> 1"
proof -
  let ?sv = "socket_connected 1000 (connect ''EURUSD=X'' service_init)"
  let ?as = "[Env (Server 2000 ''price_update'' (PriceData 1.105)),
              Env (Server 2100 ''price_update'' (PriceData 1.1051)),
              RemoveListeners, OnPriceUpdate 7,
              Env (Server 2300 ''price_update'' (PriceData 1.1052)),
              Env (Timer 2500 0), Env (Timer 2800 1)]"
  have u: "unused 2 ?sv"
    by code_simp
  have w: "(onPriceUpdate 2 ?sv = onPriceUpdate 2 ?sv
              \<and> PRICE_UPDATE_THROTTLE_MS = PRICE_UPDATE_THROTTLE_MS)
           \<or> (onPriceUpdate 2 ?sv = onIndicators 2 ?sv
              \<and> PRICE_UPDATE_THROTTLE_MS = INDICATORS_THROTTLE_MS)"
    by simp
  have "length (throttles ?sv) = 0"
    by code_simp
  moreover have "schedule_ok 0 2 0 (onPriceUpdate 2 ?sv) ?as"
    by code_simp
  ultimately have s: "schedule_ok (length (throttles ?sv)) 2 0 (onPriceUpdate 2 ?sv) ?as"
    by simp
  from channel_rate_limit[OF u w s] show ?thesis .
qed

end
